theory Spec2Isabelle
  imports
    Main
    "HOL-Library.Word"
    "HOL-Library.Char_ord"
    "HOL-Library.List_Lexorder"
    "HOL-Library.Multiset"
begin

section \<open>AppSec: the rule addresses supported by the WAF (package appsec)\<close>

text \<open>
  Go compares strings byte by byte, a proper prefix being smaller: the lexicographic
  order of \<open>char list\<close> over the order of characters by their byte value.
\<close>

definition serverRequestRawURIAddr :: string where
  "serverRequestRawURIAddr = ''server.request.uri.raw''"

definition serverRequestHeadersNoCookiesAddr :: string where
  "serverRequestHeadersNoCookiesAddr = ''server.request.headers.no_cookies''"

definition serverRequestCookiesAddr :: string where
  "serverRequestCookiesAddr = ''server.request.cookies''"

definition serverRequestQueryAddr :: string where
  "serverRequestQueryAddr = ''server.request.query''"

definition serverRequestPathParams :: string where
  "serverRequestPathParams = ''server.request.path_params''"

definition serverRequestBody :: string where
  "serverRequestBody = ''server.request.body''"

definition serverResponseStatusAddr :: string where
  "serverResponseStatusAddr = ''server.response.status''"

definition grpcServerRequestMessage :: string where
  "grpcServerRequestMessage = ''grpc.server.request.message''"

definition grpcServerRequestMetadata :: string where
  "grpcServerRequestMetadata = ''grpc.server.request.metadata''"

text \<open>The two package variables as their declarations initialise them, in that order.\<close>

definition httpAddresses_decl :: "string list" where
  "httpAddresses_decl =
     [serverRequestRawURIAddr, serverRequestHeadersNoCookiesAddr, serverRequestCookiesAddr,
      serverRequestQueryAddr, serverRequestPathParams, serverRequestBody,
      serverResponseStatusAddr]"

definition grpcAddresses_decl :: "string list" where
  "grpcAddresses_decl = [grpcServerRequestMessage, grpcServerRequestMetadata]"

text \<open>
  \<open>sort.Strings\<close> sorts a slice of strings in increasing order. Equal strings cannot be
  told apart, so the result is the one sorted permutation whatever the algorithm.
\<close>

definition sort_Strings :: "string list \<Rightarrow> string list" where
  "sort_Strings a = sort a"

text \<open>The package's \<open>init\<close> sorts both variables before any other code of the package runs.\<close>

definition httpAddresses :: "string list" where
  "httpAddresses = sort_Strings httpAddresses_decl"

definition grpcAddresses :: "string list" where
  "grpcAddresses = sort_Strings grpcAddresses_decl"

text \<open>
  \<open>sort.Search(n, f)\<close>: the binary search of Go's library, the loop on \<open>i, j := 0, n\<close>
  with \<open>h := int(uint(i+j) >> 1)\<close>. The indices of a slice stay below \<open>2^63\<close>, so the
  sum does not wrap as an unsigned number and \<open>h\<close> is the rounded-down mean.
\<close>

function Search_loop :: "nat \<Rightarrow> nat \<Rightarrow> (nat \<Rightarrow> bool) \<Rightarrow> nat" where
  "Search_loop i j f =
     (if i < j then
        (let h = (i + j) div 2 in
         if \<not> f h then Search_loop (h + 1) j f else Search_loop i h f)
      else i)"
  by pat_completeness auto
termination
  by (relation "measure (\<lambda>(i, j, f). j - i)") auto

declare Search_loop.simps [simp del]

definition Search :: "nat \<Rightarrow> (nat \<Rightarrow> bool) \<Rightarrow> nat" where
  "Search n f = Search_loop 0 n f"

text \<open>\<open>sort.SearchStrings(a, x)\<close> is \<open>Search(len(a), func(i) { return a[i] >= x })\<close>.\<close>

definition SearchStrings :: "string list \<Rightarrow> string \<Rightarrow> nat" where
  "SearchStrings a x = Search (length a) (\<lambda>i. x \<le> a ! i)"

text \<open>
  \<open>supportedAddresses\<close>: the loop over \<open>ruleAddresses\<close>, with the three result slices as
  the loop state; \<open>append\<close> adds at the end. A nil slice is the empty list.
\<close>

fun supportedAddresses_loop ::
  "string list \<Rightarrow> string list \<times> string list \<times> string list \<Rightarrow>
   string list \<times> string list \<times> string list" where
  "supportedAddresses_loop [] acc = acc"
| "supportedAddresses_loop (addr # rest) (supportedHTTP, supportedGRPC, notSupported) =
     (if (let i = SearchStrings httpAddresses addr
          in i < length httpAddresses \<and> httpAddresses ! i = addr)
      then supportedAddresses_loop rest (supportedHTTP @ [addr], supportedGRPC, notSupported)
      else if (let i = SearchStrings grpcAddresses addr
               in i < length grpcAddresses \<and> grpcAddresses ! i = addr)
      then supportedAddresses_loop rest (supportedHTTP, supportedGRPC @ [addr], notSupported)
      else supportedAddresses_loop rest (supportedHTTP, supportedGRPC, notSupported @ [addr]))"

definition supportedAddresses ::
  "string list \<Rightarrow> string list \<times> string list \<times> string list" where
  "supportedAddresses ruleAddresses = supportedAddresses_loop ruleAddresses ([], [], [])"


section \<open>Decimal rendering of integers (\<open>strconv.Itoa\<close>, the verb \<open>%d\<close>)\<close>

definition digit_char :: "nat \<Rightarrow> char" where
  "digit_char d = ''0123456789'' ! d"

function digits :: "nat \<Rightarrow> string" where
  "digits n = (if n < 10 then [digit_char n] else digits (n div 10) @ [digit_char (n mod 10)])"
  by pat_completeness auto
termination
  by (relation "measure id") auto

declare digits.simps [simp del]

definition Itoa :: "int \<Rightarrow> string" where
  "Itoa i = (if i < 0 then CHR ''-'' # digits (nat (- i)) else digits (nat i))"

section \<open>graphql-go: the finish function of \<open>Tracer.TraceQuery\<close> (package graphql)\<close>

text \<open>
  A \<open>*errors.QueryError\<close> of the graphql-go library is a value of an arbitrary type
  \<open>'q\<close>; its method \<open>Error()\<close>, which the verb \<open>%s\<close> calls, is the parameter
  \<open>QueryError_Error\<close>. The Go interface value \<open>err\<close> is \<open>None\<close> when nil, the
  stored query error, or the error \<open>fmt.Errorf\<close> makes, given by its message.
\<close>

datatype 'q error = QueryError 'q | Errorf string

text \<open>A call on the span that \<open>TraceQuery\<close> started: \<open>span.Finish(tracer.WithError(err))\<close>.\<close>

datatype 'q span_call = Finish_WithError "'q error option"

text \<open>
  The function \<open>TraceQuery\<close> returns, \<open>func(errs []*errors.QueryError)\<close>: the switch on
  \<open>n := len(errs)\<close>, then the one call on the span. The result is the list of the calls
  it makes on the span.
\<close>

definition TraceQuery_finish :: "('q \<Rightarrow> string) \<Rightarrow> 'q list \<Rightarrow> 'q span_call list" where
  "TraceQuery_finish QueryError_Error errs =
     (let n = int (length errs);
          err = (if n = 0 then None
                 else if n = 1 then Some (QueryError (errs ! 0))
                 else Some (Errorf (QueryError_Error (errs ! 0) @ '' (and '' @ Itoa (n - 1) @
                                    '' more errors)'')))
      in [Finish_WithError err])"

section \<open>The random source of the tracer (package tracer)\<close>

type_synonym int64 = "64 word"

text \<open>
  \<open>randSource\<close>: the field \<open>source\<close>, a \<open>rand.Source\<close> of Go's library whose state is
  a value of an arbitrary type \<open>'s\<close>, and the embedded \<open>sync.Mutex\<close>, held or not.
\<close>

record 's randSource =
  source :: 's
  locked :: bool

text \<open>
  \<open>newRandSource\<close>. What it reads from outside is a parameter: the result of
  \<open>cryptorand.Int(cryptorand.Reader, max)\<close> (\<open>Inl\<close> the error, by its text, \<open>Inr\<close> the
  number, which is below \<open>math.MaxInt64\<close>), the value of \<open>time.Now().UnixNano()\<close>, and
  \<open>rand.NewSource\<close>. The log is the list of the lines printed so far. The result is the
  pair the function returns, a pointer (\<open>None\<close> is nil) and an error (\<open>None\<close> is nil), and
  the log.
\<close>

definition newRandSource ::
  "(int64 \<Rightarrow> 's) \<Rightarrow> string + int \<Rightarrow> int64 \<Rightarrow> string list \<Rightarrow>
   ('s randSource option \<times> string option) \<times> string list" where
  "newRandSource NewSource cryptorand_Int time_Now_UnixNano log =
     (let (seed, log') =
            (case cryptorand_Int of
               Inr n \<Rightarrow> (word_of_int n, log)
             | Inl err \<Rightarrow>
                 (time_Now_UnixNano,
                  log @ [''cannot generate random seed: '' @ err @ ''; using current time'' @
                         [CHR 0x0A]]));
          source = NewSource seed
      in ((Some \<lparr>source = source, locked = False\<rparr>, None), log'))"

text \<open>
  \<open>rs.Lock()\<close>: the caller waits while the mutex is held. The model follows one goroutine;
  a mutex that is held stays held while that goroutine waits, so the wait does not end and
  the call has no result (\<open>None\<close>). \<open>rs.Unlock()\<close> releases the mutex; both methods below
  call it on a mutex they hold.
\<close>

partial_function (option) Lock :: "'s randSource \<Rightarrow> 's randSource option" where
  "Lock rs = (if locked rs then Lock rs else Some (rs\<lparr>locked := True\<rparr>))"

definition Unlock :: "'s randSource \<Rightarrow> 's randSource" where
  "Unlock rs = rs\<lparr>locked := False\<rparr>"

text \<open>
  \<open>rs.Int63()\<close>, with the method \<open>Int63\<close> of the \<open>rand.Source\<close> as a parameter: it
  returns a number and leaves the source in a new state.
\<close>

definition Int63 ::
  "('s \<Rightarrow> int64 \<times> 's) \<Rightarrow> 's randSource \<Rightarrow> (int64 \<times> 's randSource) option" where
  "Int63 source_Int63 rs =
     Option.bind (Lock rs) (\<lambda>rs1.
       let (n, s') = source_Int63 (source rs1);
           rs2 = rs1\<lparr>source := s'\<rparr>
       in Some (n, Unlock rs2))"

text \<open>
  \<open>rs.Seed(seed)\<close>: \<open>rs.Lock()\<close>, then \<open>rs.Seed(seed)\<close>, the method itself, then
  \<open>rs.Unlock()\<close>. A call that does not return has the value \<open>None\<close>.
\<close>

partial_function (option) Seed :: "'s randSource \<Rightarrow> int64 \<Rightarrow> 's randSource option" where
  "Seed rs seed =
     Option.bind (Lock rs) (\<lambda>rs1.
       Option.bind (Seed rs1 seed) (\<lambda>rs2.
         Some (Unlock rs2)))"

text \<open>
  The same method statement by statement, to observe the state while a call is in
  progress. A frame is the statement an activation of \<open>Seed\<close> runs next; a configuration
  is the stack of the activations (the innermost first) and the \<open>randSource\<close>. A step
  runs one statement of the innermost activation; a \<open>Lock\<close> on a held mutex cannot take
  one, and the call has returned when the stack is empty.
\<close>

datatype frame = Seed_Lock | Seed_Call | Seed_Unlock

fun Seed_step :: "frame list \<times> 's randSource \<Rightarrow> (frame list \<times> 's randSource) option" where
  "Seed_step ([], rs) = None"
| "Seed_step (Seed_Lock # stack, rs) =
     (if locked rs then None else Some (Seed_Call # stack, rs\<lparr>locked := True\<rparr>))"
| "Seed_step (Seed_Call # stack, rs) = Some (Seed_Lock # Seed_Unlock # stack, rs)"
| "Seed_step (Seed_Unlock # stack, rs) = Some (stack, Unlock rs)"

fun Seed_run :: "nat \<Rightarrow> frame list \<times> 's randSource \<Rightarrow> frame list \<times> 's randSource" where
  "Seed_run 0 c = c"
| "Seed_run (Suc k) c = (case Seed_step c of None \<Rightarrow> c | Some c' \<Rightarrow> Seed_run k c')"

text \<open>
  The generator of Go's library that \<open>rand.NewSource\<close> returns (\<open>rngSource\<close> of
  \<open>math/rand\<close>, not a part of this repository), as an instance of the parameter: an
  additive lagged Fibonacci generator on a register of \<open>rngLen = 607\<close> words, whose
  \<open>Int63\<close> masks the sign bit of the next word.
\<close>

record rngSource =
  tap :: int
  feed :: int
  vec :: "int64 list"

definition rngLen :: int where
  "rngLen = 607"

definition rngMask :: int64 where
  "rngMask = push_bit 63 1 - 1"

definition rngSource_Uint64 :: "rngSource \<Rightarrow> 64 word \<times> rngSource" where
  "rngSource_Uint64 rng =
     (let tap1 = tap rng - 1;
          tap2 = (if tap1 < 0 then tap1 + rngLen else tap1);
          feed1 = feed rng - 1;
          feed2 = (if feed1 < 0 then feed1 + rngLen else feed1);
          x = vec rng ! nat feed2 + vec rng ! nat tap2
      in (x, \<lparr>tap = tap2, feed = feed2, vec = (vec rng)[nat feed2 := x]\<rparr>))"

definition rngSource_Int63 :: "rngSource \<Rightarrow> int64 \<times> rngSource" where
  "rngSource_Int63 rng = (let (x, rng') = rngSource_Uint64 rng in (and x rngMask, rng'))"

section \<open>Parsing of integers (\<open>strconv.Atoi\<close>)\<close>

text \<open>
  \<open>strconv.Atoi\<close> of Go's library: an optional sign, then one decimal digit or more, and
  a value that fits the 64-bit \<open>int\<close>; anything else is an error (\<open>None\<close>).
\<close>

definition digit_val :: "char \<Rightarrow> nat option" where
  "digit_val c =
     (if CHR ''0'' \<le> c \<and> c \<le> CHR ''9'' then Some (of_char c - of_char CHR ''0'') else None)"

fun parse_digits :: "string \<Rightarrow> nat \<Rightarrow> nat option" where
  "parse_digits [] acc = Some acc"
| "parse_digits (c # cs) acc =
     (case digit_val c of None \<Rightarrow> None | Some d \<Rightarrow> parse_digits cs (10 * acc + d))"

definition Atoi :: "string \<Rightarrow> int option" where
  "Atoi s =
     (let (neg, ds) =
            (case s of
               [] \<Rightarrow> (False, [])
             | c # cs \<Rightarrow>
                 if c = CHR ''-'' then (True, cs)
                 else if c = CHR ''+'' then (False, cs)
                 else (False, s))
      in if ds = [] then None
         else (case parse_digits ds 0 of
                 None \<Rightarrow> None
               | Some n \<Rightarrow>
                   (let v = (if neg then - int n else int n)
                    in if - (2 ^ 63) \<le> v \<and> v < 2 ^ 63 then Some v else None)))"

section \<open>Agent address resolution (package tracer)\<close>

text \<open>\<open>os.Getenv\<close>: the value of a variable of the environment, empty when it is not set.\<close>

definition Getenv :: "(string \<rightharpoonup> string) \<Rightarrow> string \<Rightarrow> string" where
  "Getenv env k = (case env k of None \<Rightarrow> [] | Some v \<Rightarrow> v)"

text \<open>Modelled from the spec: \<open>resolveAgentAddr\<close>, of which only the test
  \<open>TestResolveAgentAddr\<close> is among the source files. Section 4.5: the host and the port
  derived from the environment come before a well-known local default host and port. The
  two variables are the ones the test sets; the default host name and port, constants the
  test names and another file declares, are parameters.
\<close>

definition resolveAgentAddr :: "string \<Rightarrow> string \<Rightarrow> (string \<rightharpoonup> string) \<Rightarrow> string" where
  "resolveAgentAddr defaultHostname defaultPort env =
     (let host = Getenv env ''DD_AGENT_HOST'';
          port = Getenv env ''DD_TRACE_AGENT_PORT''
      in (if host = [] then defaultHostname else host) @ '':'' @
         (if port = [] then defaultPort else port))"

record config =
  agentURL :: string

text \<open>Modelled from the spec: the start option \<open>WithAgentAddr\<close>, of which only the test is
  among the source files. Section 4.5: explicit configuration comes first; in the test the
  option makes the URL of the agent out of the address it is given.
\<close>

definition WithAgentAddr :: "string \<Rightarrow> config \<Rightarrow> config" where
  "WithAgentAddr addr c = c\<lparr>agentURL := ''http://'' @ addr\<rparr>"

text \<open>
  The body of a case of \<open>TestResolveAgentAddr\<close>: it sets each of the two variables when
  the case gives a value for it, assigns \<open>c.agentURL = "http://" + resolveAgentAddr()\<close> and
  applies the option when the case has one.
\<close>

definition resolve_agentURL ::
  "string \<Rightarrow> string \<Rightarrow> (config \<Rightarrow> config) option \<Rightarrow> string \<Rightarrow> string \<Rightarrow> config" where
  "resolve_agentURL defaultHostname defaultPort inOpt envHost envPort =
     (let env0 = Map.empty;
          env1 = (if envHost \<noteq> [] then env0(''DD_AGENT_HOST'' \<mapsto> envHost) else env0);
          env2 = (if envPort \<noteq> [] then env1(''DD_TRACE_AGENT_PORT'' \<mapsto> envPort) else env1);
          c = \<lparr>agentURL = ''http://'' @ resolveAgentAddr defaultHostname defaultPort env2\<rparr>
      in (case inOpt of None \<Rightarrow> c | Some opt \<Rightarrow> opt c))"

section \<open>The HTTP transport (package tracer)\<close>

record payload =
  itemCount :: nat
  bytes :: string

text \<open>Modelled from the spec: \<open>encode\<close>, which the tests call and no source file defines.
  Section 4.4: the output is the bytes of the payload plus the count of the traces
  encoded. The bytes of a batch are the parameter \<open>enc\<close>.
\<close>

definition encode :: "('t list \<Rightarrow> string) \<Rightarrow> 't list \<Rightarrow> payload" where
  "encode enc traces = \<lparr>itemCount = length traces, bytes = enc traces\<rparr>"

record request =
  req_headers :: "(string \<times> string) list"
  req_body :: string

record response =
  StatusCode :: int
  resp_body :: string

definition traceCountHeader :: string where
  "traceCountHeader = ''X-Datadog-Trace-Count''"

text \<open>Modelled from the spec: the method \<open>send\<close> of the HTTP transport, of which only the tests
  (\<open>TestTransportResponse\<close>, \<open>TestTraceCountHeader\<close>) are among the source files.
  Sections 4.5 and 6: given the bytes of the payload and the count of the traces, it
  issues one request that carries the count in a header and the payload as its body; any
  2xx status is success, any other status and any error of the transport level is a
  failure of the delivery, and there is no second attempt. In the test the message of the
  error for a status is the first 1000 bytes of the body of the response, then the text
  of the status. The HTTP client (\<open>Inl\<close> an error of the transport level, by its text) and
  \<open>http.StatusText\<close> are parameters. The result is the error (\<open>Inl\<close>, by its message) or the
  body of the response, and the list of the requests issued.
\<close>

definition send ::
  "(request \<Rightarrow> string + response) \<Rightarrow> (int \<Rightarrow> string) \<Rightarrow> payload \<Rightarrow>
   (string + string) \<times> request list" where
  "send client_Do StatusText p =
     (let req = \<lparr>req_headers = [(traceCountHeader, Itoa (int (itemCount p)))],
                 req_body = bytes p\<rparr>
      in ((case client_Do req of
             Inl err \<Rightarrow> Inl err
           | Inr resp \<Rightarrow>
               if 200 \<le> StatusCode resp \<and> StatusCode resp < 300 then Inr (resp_body resp)
               else Inl (take 1000 (resp_body resp) @ '' (Status: '' @
                         StatusText (StatusCode resp) @ '')'')),
          [req]))"

section \<open>Sarama: the wrapped partition consumer (package sarama)\<close>

text \<open>
  The goroutine that \<open>WrapPartitionConsumer\<close> starts, as the list of what it does in
  order. A message is the pointer the channel carries, a value of an arbitrary type
  \<open>'m\<close>. A span is known by the number of the call of \<open>tracer.StartSpan\<close> that made it.
\<close>

datatype 'm consumer_event =
    StartSpan nat 'm
  | Inject nat 'm
  | Forward 'm
  | Finish nat
  | Close_messages

text \<open>\<open>if prev != nil { prev.Finish() }\<close>\<close>

definition finish_prev :: "nat option \<Rightarrow> 'm consumer_event list" where
  "finish_prev prev = (case prev of None \<Rightarrow> [] | Some p \<Rightarrow> [Finish p])"

text \<open>
  The loop \<open>for msg := range msgs\<close> over the messages the underlying channel delivers
  before it is closed, then the two statements after it. The state of the loop is \<open>prev\<close>,
  the number of the spans started so far, and the events so far.

  The channel \<open>wrapped.messages\<close> is made without a buffer, so the sending
  \<open>wrapped.messages <- msg\<close> is done only when the reader of the wrapped consumer
  receives the message. \<open>receives\<close> is the number of messages that reader still
  receives: with none left the goroutine waits in the sending for ever, and its events
  end with those before it (the event \<open>Forward\<close> is a sending that is done).
\<close>

fun consume_loop ::
  "nat \<Rightarrow> 'm list \<Rightarrow> nat option \<Rightarrow> nat \<Rightarrow> 'm consumer_event list \<Rightarrow> 'm consumer_event list" where
  "consume_loop receives [] prev k tr = tr @ finish_prev prev @ [Close_messages]"
| "consume_loop receives (msg # msgs) prev k tr =
     (let next = k;
          tr1 = tr @ [StartSpan next msg];
          tr2 = tr1 @ [Inject next msg]
      in (case receives of
            0 \<Rightarrow> tr2
          | Suc receives' \<Rightarrow>
              (let tr3 = tr2 @ [Forward msg];
                   tr4 = tr3 @ finish_prev prev
               in consume_loop receives' msgs (Some next) (k + 1) tr4)))"

text \<open>
  The goroutine from its start, for the number of messages the reader of the wrapped
  consumer receives in all and the messages of the underlying channel.
\<close>

definition WrapPartitionConsumer :: "nat \<Rightarrow> 'm list \<Rightarrow> 'm consumer_event list" where
  "WrapPartitionConsumer receives msgs = consume_loop receives msgs None 0 []"

text \<open>
  What a list of events shows: the messages forwarded, the spans started, each with its
  message, and the spans finished, each in the order of the events.
\<close>

fun forwarded :: "'m consumer_event list \<Rightarrow> 'm list" where
  "forwarded [] = []"
| "forwarded (Forward m # es) = m # forwarded es"
| "forwarded (e # es) = forwarded es"

fun started_spans :: "'m consumer_event list \<Rightarrow> (nat \<times> 'm) list" where
  "started_spans [] = []"
| "started_spans (StartSpan k m # es) = (k, m) # started_spans es"
| "started_spans (e # es) = started_spans es"

fun finished :: "'m consumer_event list \<Rightarrow> nat list" where
  "finished [] = []"
| "finished (Finish k # es) = k # finished es"
| "finished (e # es) = finished es"

section \<open>Sarama: the wrapped asynchronous producer (package sarama)\<close>















section \<open>Verification\<close>

subsection \<open>Binary search and the supported addresses\<close>

lemma Search_loop_spec:
  "(\<forall>k l. k \<le> l \<and> l < n \<longrightarrow> f k \<longrightarrow> f l) \<Longrightarrow> i \<le> j \<Longrightarrow> j \<le> n \<Longrightarrow>
   (\<forall>k<i. \<not> f k) \<Longrightarrow> (\<forall>k. j \<le> k \<and> k < n \<longrightarrow> f k) \<Longrightarrow>
   Search_loop i j f \<le> n \<and> (\<forall>k<Search_loop i j f. \<not> f k) \<and>
   (\<forall>k. Search_loop i j f \<le> k \<and> k < n \<longrightarrow> f k)"
proof (induction i j f rule: Search_loop.induct)
  case (1 i j f)
  note mono = "1.prems"(1)
  show ?case
  proof (cases "i < j")
    case False
    then have eq: "Search_loop i j f = i" by (subst Search_loop.simps) simp
    from False "1.prems"(2) have "j = i" by simp
    with "1.prems" show ?thesis unfolding eq by simp
  next
    case True
    define h where "h = (i + j) div 2"
    have hb: "i \<le> h" "h < j" using True by (auto simp: h_def)
    show ?thesis
    proof (cases "f h")
      case fh: True
      have eq: "Search_loop i j f = Search_loop i h f"
        using True fh by (subst Search_loop.simps) (simp add: h_def Let_def)
      have up: "\<forall>k. h \<le> k \<and> k < n \<longrightarrow> f k"
        using mono fh by blast
      have "h \<le> n" using hb "1.prems"(3) by simp
      have nn: "\<not> \<not> f h" using fh by simp
      show ?thesis unfolding eq
        by (rule "1.IH"(2) [OF True h_def nn mono hb(1) \<open>h \<le> n\<close> "1.prems"(4) up])
    next
      case nfh: False
      have eq: "Search_loop i j f = Search_loop (h + 1) j f"
        using True nfh by (subst Search_loop.simps) (simp add: h_def Let_def)
      have low: "\<forall>k<h + 1. \<not> f k"
      proof (intro allI impI)
        fix k assume "k < h + 1"
        then have "k \<le> h" by simp
        moreover have "h < n" using hb "1.prems"(3) by simp
        ultimately show "\<not> f k" using mono nfh by blast
      qed
      have "h + 1 \<le> j" using hb by simp
      show ?thesis unfolding eq
        by (rule "1.IH"(1) [OF True h_def nfh mono \<open>h + 1 \<le> j\<close> "1.prems"(3) low "1.prems"(5)])
    qed
  qed
qed

lemma SearchStrings_mem:
  assumes "sorted a"
  shows "(let i = SearchStrings a x in i < length a \<and> a ! i = x) \<longleftrightarrow> x \<in> set a"
proof -
  define f where "f = (\<lambda>i. x \<le> a ! i)"
  define r where "r = Search_loop 0 (length a) f"
  have mono: "\<forall>k l. k \<le> l \<and> l < length a \<longrightarrow> f k \<longrightarrow> f l"
    using assms by (auto simp: f_def sorted_iff_nth_mono intro: order_trans)
  have spec: "r \<le> length a \<and> (\<forall>k<r. \<not> f k) \<and> (\<forall>k. r \<le> k \<and> k < length a \<longrightarrow> f k)"
    unfolding r_def by (rule Search_loop_spec [OF mono]) auto
  have r: "SearchStrings a x = r"
    by (simp add: SearchStrings_def Search_def r_def f_def)
  show ?thesis
  proof
    assume "let i = SearchStrings a x in i < length a \<and> a ! i = x"
    then show "x \<in> set a" by (metis nth_mem)
  next
    assume "x \<in> set a"
    then obtain m where m: "m < length a" "a ! m = x" by (auto simp: in_set_conv_nth)
    then have "f m" by (simp add: f_def)
    with spec have rm: "r \<le> m" by (meson not_le_imp_less)
    with m have rl: "r < length a" by simp
    with spec have "x \<le> a ! r" by (auto simp: f_def)
    moreover have "a ! r \<le> a ! m" using assms rm m(1) by (simp add: sorted_iff_nth_mono)
    ultimately have "a ! r = x" using m(2) by simp
    with rl show "let i = SearchStrings a x in i < length a \<and> a ! i = x"
      by (simp add: r)
  qed
qed

lemma supportedAddresses_loop_filter:
  "supportedAddresses_loop xs (hs, gs, ns) =
     (hs @ filter (\<lambda>a. a \<in> set httpAddresses_decl) xs,
      gs @ filter (\<lambda>a. a \<notin> set httpAddresses_decl \<and> a \<in> set grpcAddresses_decl) xs,
      ns @ filter (\<lambda>a. a \<notin> set httpAddresses_decl \<and> a \<notin> set grpcAddresses_decl) xs)"
proof (induction xs arbitrary: hs gs ns)
  case Nil
  show ?case by simp
next
  case (Cons addr rest)
  have h: "(let i = SearchStrings httpAddresses addr
            in i < length httpAddresses \<and> httpAddresses ! i = addr) \<longleftrightarrow>
           addr \<in> set httpAddresses_decl"
    using SearchStrings_mem [of httpAddresses addr]
    by (simp add: httpAddresses_def sort_Strings_def)
  have g: "(let i = SearchStrings grpcAddresses addr
            in i < length grpcAddresses \<and> grpcAddresses ! i = addr) \<longleftrightarrow>
           addr \<in> set grpcAddresses_decl"
    using SearchStrings_mem [of grpcAddresses addr]
    by (simp add: grpcAddresses_def sort_Strings_def)
  show ?case
    by (simp only: supportedAddresses_loop.simps h g Cons.IH) simp
qed

lemma disjoint_decl: "set httpAddresses_decl \<inter> set grpcAddresses_decl = {}"
  by (simp add: httpAddresses_decl_def grpcAddresses_decl_def
     serverRequestRawURIAddr_def serverRequestHeadersNoCookiesAddr_def serverRequestCookiesAddr_def
  serverRequestQueryAddr_def serverRequestPathParams_def serverRequestBody_def serverResponseStatusAddr_def grpcServerRequestMessage_def grpcServerRequestMetadata_def)

lemma mset_three_filters:
  "mset (filter P xs) + mset (filter (\<lambda>a. \<not> P a \<and> Q a) xs) +
   mset (filter (\<lambda>a. \<not> P a \<and> \<not> Q a) xs) = mset xs"
  by (induction xs) auto

text \<open>
  Claim C9. \<open>supportedAddresses\<close> splits its input in three: the elements that are one of
  the seven HTTP addresses, those that are one of the two gRPC addresses, and the others,
  each in the order of the input. The three lists together hold every element as often as
  the input does, and no element is in two of them.
\<close>
theorem supportedAddresses_partition:
  "supportedAddresses ruleAddresses =
     (filter (\<lambda>a. a \<in> set httpAddresses_decl) ruleAddresses,
      filter (\<lambda>a. a \<in> set grpcAddresses_decl) ruleAddresses,
      filter (\<lambda>a. a \<notin> set httpAddresses_decl \<and> a \<notin> set grpcAddresses_decl) ruleAddresses) \<and>
   (case supportedAddresses ruleAddresses of (supportedHTTP, supportedGRPC, notSupported) \<Rightarrow>
      mset supportedHTTP + mset supportedGRPC + mset notSupported = mset ruleAddresses \<and>
      set supportedHTTP \<inter> set supportedGRPC = {} \<and>
      set supportedHTTP \<inter> set notSupported = {} \<and>
      set supportedGRPC \<inter> set notSupported = {})"
proof -
  have g: "(\<lambda>a. a \<notin> set httpAddresses_decl \<and> a \<in> set grpcAddresses_decl) =
           (\<lambda>a. a \<in> set grpcAddresses_decl)"
    using disjoint_decl by auto
  have eq: "supportedAddresses ruleAddresses =
     (filter (\<lambda>a. a \<in> set httpAddresses_decl) ruleAddresses,
      filter (\<lambda>a. a \<notin> set httpAddresses_decl \<and> a \<in> set grpcAddresses_decl) ruleAddresses,
      filter (\<lambda>a. a \<notin> set httpAddresses_decl \<and> a \<notin> set grpcAddresses_decl) ruleAddresses)"
    by (simp add: supportedAddresses_def supportedAddresses_loop_filter)
  have m: "mset (filter (\<lambda>a. a \<in> set httpAddresses_decl) ruleAddresses) +
           mset (filter (\<lambda>a. a \<notin> set httpAddresses_decl \<and> a \<in> set grpcAddresses_decl) ruleAddresses) +
           mset (filter (\<lambda>a. a \<notin> set httpAddresses_decl \<and> a \<notin> set grpcAddresses_decl) ruleAddresses) =
           mset ruleAddresses"
    by (rule mset_three_filters)
  have d: "set (filter (\<lambda>a. a \<in> set httpAddresses_decl) ruleAddresses) \<inter>
           set (filter (\<lambda>a. a \<in> set grpcAddresses_decl) ruleAddresses) = {}"
    using disjoint_decl by auto
  show ?thesis
    unfolding eq using m d by (auto simp: g)
qed

theorem supportedAddresses_partition_witness:
  "supportedAddresses
     [''x'', ''server.request.body'', ''grpc.server.request.message'', ''server.request.body'',
      ''server.response.status'', ''server.request.Body''] =
     ([''server.request.body'', ''server.request.body'', ''server.response.status''],
      [''grpc.server.request.message''],
      [''x'', ''server.request.Body''])"
  using supportedAddresses_partition
    [of "[''x'', ''server.request.body'', ''grpc.server.request.message'', ''server.request.body'',
      ''server.response.status'', ''server.request.Body'']"]
  by (simp add: httpAddresses_decl_def grpcAddresses_decl_def
     serverRequestRawURIAddr_def serverRequestHeadersNoCookiesAddr_def serverRequestCookiesAddr_def
     serverRequestQueryAddr_def serverRequestPathParams_def serverRequestBody_def
     serverResponseStatusAddr_def grpcServerRequestMessage_def grpcServerRequestMetadata_def)

subsection \<open>Decimal digits\<close>

lemma digits_small: "n < 10 \<Longrightarrow> digits n = [digit_char n]"
  by (subst digits.simps) simp

lemma digit_val_digit_char: "d < 10 \<Longrightarrow> digit_val (digit_char d) = Some d"
proof -
  assume "d < 10"
  then have "d \<in> {0, 1, 2, 3, 4, 5, 6, 7, 8, 9}" by auto
  then show ?thesis
    by (auto simp: digit_val_def digit_char_def less_eq_char_def)
qed

lemma digit_char_not_sign: "d < 10 \<Longrightarrow> digit_char d \<noteq> CHR ''-'' \<and> digit_char d \<noteq> CHR ''+''"
proof -
  assume "d < 10"
  then have "d \<in> {0, 1, 2, 3, 4, 5, 6, 7, 8, 9}" by auto
  then show ?thesis
    by (auto simp: digit_char_def)
qed

lemma parse_digits_append:
  "parse_digits (xs @ ys) acc =
     (case parse_digits xs acc of None \<Rightarrow> None | Some a \<Rightarrow> parse_digits ys a)"
  by (induction xs arbitrary: acc) (auto split: option.splits)

lemma parse_digits_digits: "parse_digits (digits n) 0 = Some n"
proof (induction n rule: digits.induct)
  case (1 n)
  show ?case
  proof (cases "n < 10")
    case True
    then show ?thesis
      by (subst digits.simps) (simp add: digit_val_digit_char)
  next
    case False
    have d: "digits n = digits (n div 10) @ [digit_char (n mod 10)]"
      using False by (subst digits.simps) simp
    have m: "n mod 10 < 10" by simp
    show ?thesis
      unfolding d parse_digits_append
      by (simp add: "1.IH" [OF False] digit_val_digit_char [OF m])
  qed
qed

lemma digits_hd: "\<exists>c cs. digits n = c # cs \<and> c \<noteq> CHR ''-'' \<and> c \<noteq> CHR ''+''"
proof (induction n rule: digits.induct)
  case (1 n)
  show ?case
  proof (cases "n < 10")
    case True
    then show ?thesis
      by (subst digits.simps) (simp add: digit_char_not_sign)
  next
    case False
    have d: "digits n = digits (n div 10) @ [digit_char (n mod 10)]"
      using False by (subst digits.simps) simp
    from "1.IH" [OF False] show ?thesis
      unfolding d by auto
  qed
qed

lemma Atoi_Itoa: "n < 2 ^ 63 \<Longrightarrow> Atoi (Itoa (int n)) = Some (int n)"
proof -
  assume b: "n < 2 ^ 63"
  obtain c cs where d: "digits n = c # cs" "c \<noteq> CHR ''-''" "c \<noteq> CHR ''+''"
    using digits_hd [of n] by blast
  have p: "parse_digits (c # cs) 0 = Some n"
    using parse_digits_digits [of n] by (simp only: d)
  have r: "int n < 2 ^ 63" using b by (metis of_nat_less_iff of_nat_numeral of_nat_power)
  have i: "Itoa (int n) = c # cs" by (simp add: Itoa_def d)
  show ?thesis
    unfolding i Atoi_def using d(2,3) r
    by (simp only: list.case if_False prod.case Let_def p option.case) simp
qed

subsection \<open>The finish function of TraceQuery\<close>

lemma TraceQuery_finish_Nil: "TraceQuery_finish E [] = [Finish_WithError None]"
  by (simp add: TraceQuery_finish_def)

lemma TraceQuery_finish_single: "TraceQuery_finish E [e] = [Finish_WithError (Some (QueryError e))]"
  by (simp add: TraceQuery_finish_def)

lemma TraceQuery_finish_many:
  "TraceQuery_finish E (e1 # e2 # es) =
     [Finish_WithError (Some (Errorf (E e1 @ '' (and '' @ Itoa (int (length (e1 # e2 # es)) - 1) @
        '' more errors)'')))]"
  by (simp add: TraceQuery_finish_def Let_def)

text \<open>
  Claim C10. The finish function of \<open>TraceQuery\<close> makes one call on the span,
  \<open>Finish\<close> with the option \<open>WithError(err)\<close>: for no query error \<open>err\<close> is nil, for one
  it is that error, for \<open>n > 1\<close> it is the error whose message is the text of the first
  one followed by \<open>(and n-1 more errors)\<close>; so \<open>err\<close> is nil exactly for the empty list.
\<close>
theorem TraceQuery_finish_error:
  "TraceQuery_finish E [] = [Finish_WithError None] \<and>
   TraceQuery_finish E [e] = [Finish_WithError (Some (QueryError e))] \<and>
   TraceQuery_finish E (e1 # e2 # es) =
     [Finish_WithError (Some (Errorf (E e1 @ '' (and '' @ Itoa (int (length (e1 # e2 # es)) - 1) @
        '' more errors)'')))] \<and>
   (\<exists>err. TraceQuery_finish E errs = [Finish_WithError err] \<and> (err = None \<longleftrightarrow> errs = []))"
proof -
  have "\<exists>err. TraceQuery_finish E errs = [Finish_WithError err] \<and> (err = None \<longleftrightarrow> errs = [])"
    by (cases errs) (simp_all add: TraceQuery_finish_def Let_def)
  then show ?thesis
    by (simp only: TraceQuery_finish_Nil TraceQuery_finish_single TraceQuery_finish_many simp_thms)
qed

theorem TraceQuery_finish_error_witness:
  "TraceQuery_finish (\<lambda>q. q) [''a'', ''b'', ''c''] =
     [Finish_WithError (Some (Errorf ''a (and 2 more errors)''))]"
  using TraceQuery_finish_error [of "\<lambda>q. q" "''a''" "''a''" "''b''" "[''c'']" "[]"]
  by (simp add: Itoa_def digits_small digit_char_def)

subsection \<open>The random source\<close>

text \<open>
  Claim C1. Whatever the cryptographic read yields, \<open>newRandSource\<close> returns a non-nil
  \<open>randSource\<close> and a nil error. When the read fails, the source is seeded with the
  wall-clock time and one line is logged; when it succeeds, with the number read, and
  nothing is logged.
\<close>
theorem newRandSource_always_succeeds:
  "(\<exists>rs log'. newRandSource NewSource outcome now log = ((Some rs, None), log')) \<and>
   newRandSource NewSource (Inl err) now log =
     ((Some \<lparr>source = NewSource now, locked = False\<rparr>, None),
      log @ [''cannot generate random seed: '' @ err @ ''; using current time'' @ [CHR 0x0A]]) \<and>
   newRandSource NewSource (Inr n) now log =
     ((Some \<lparr>source = NewSource (word_of_int n), locked = False\<rparr>, None), log)"
  by (cases outcome) (simp_all add: newRandSource_def)

theorem newRandSource_always_succeeds_witness:
  "newRandSource (\<lambda>seed. seed) (Inl ''EOF'') 1700000000000000000 [] =
     ((Some \<lparr>source = 1700000000000000000, locked = False\<rparr>, None),
      [''cannot generate random seed: EOF; using current time'' @ [CHR 0x0A]]) \<and>
   newRandSource (\<lambda>seed. seed) (Inr 42) 1700000000000000000 [] =
     ((Some \<lparr>source = 42, locked = False\<rparr>, None), [])"
  using newRandSource_always_succeeds
    [of "\<lambda>seed. seed" "Inl ''EOF''" 1700000000000000000 "[]" "''EOF''" 42]
  by simp

lemma Lock_Some: "Lock rs = Some rs' \<Longrightarrow> \<not> locked rs \<and> rs' = rs\<lparr>locked := True\<rparr>"
  by (erule Lock.raw_induct [rotated]) (auto split: if_splits)

lemma Lock_held: "locked rs \<Longrightarrow> Lock rs = None"
  using Lock_Some [of rs] by (cases "Lock rs") auto

lemma Lock_free: "\<not> locked rs \<Longrightarrow> Lock rs = Some (rs\<lparr>locked := True\<rparr>)"
  by (subst Lock.simps) simp

lemma Seed_Some: "Seed rs seed = Some y \<Longrightarrow> False"
  by (erule Seed.raw_induct [rotated]) (auto simp: bind_eq_Some_conv)

lemma Seed_None: "Seed rs seed = None"
  using Seed_Some [of rs seed] by (cases "Seed rs seed") auto

lemma Seed_run_blocked: "locked rs \<Longrightarrow> Seed_run k (Seed_Lock # stack, rs) = (Seed_Lock # stack, rs)"
  by (cases k) simp_all

lemma Seed_run_free:
  "\<not> locked rs \<Longrightarrow> Seed_run k ([Seed_Lock], rs) \<in>
     {([Seed_Lock], rs), ([Seed_Call], rs\<lparr>locked := True\<rparr>),
      ([Seed_Lock, Seed_Unlock], rs\<lparr>locked := True\<rparr>)}"
proof (cases k)
  case 0 then show ?thesis by simp
next
  case (Suc k1)
  note k = this
  assume f: "\<not> locked rs"
  show ?thesis
  proof (cases k1)
    case 0 with k f show ?thesis by simp
  next
    case (Suc k2)
    with k f show ?thesis by (simp add: Seed_run_blocked)
  qed
qed

lemma Seed_run_inv:
  "fst (Seed_run k ([Seed_Lock], rs)) \<noteq> [] \<and> source (snd (Seed_run k ([Seed_Lock], rs))) = source rs"
proof (cases "locked rs")
  case True
  then show ?thesis by (simp add: Seed_run_blocked)
next
  case False
  from Seed_run_free [OF this, of k] show ?thesis by auto
qed

text \<open>
  Claim C2. A call \<open>rs.Seed(seed)\<close> does not return. While it is in progress the call has
  never returned and the source is the one it started with: on a free mutex the run stops
  after two statements, in the \<open>Lock\<close> of the inner call of \<open>Seed\<close> with the mutex held by
  the outer one, where no step is possible; on a held mutex it stops in the first \<open>Lock\<close>.
\<close>
theorem Seed_never_returns:
  "Seed rs seed = None \<and>
   (\<forall>k. fst (Seed_run k ([Seed_Lock], rs)) \<noteq> [] \<and>
        source (snd (Seed_run k ([Seed_Lock], rs))) = source rs) \<and>
   (\<forall>k. Seed_run (k + 2) ([Seed_Lock], rs\<lparr>locked := False\<rparr>) =
          ([Seed_Lock, Seed_Unlock], rs\<lparr>locked := True\<rparr>)) \<and>
   Seed_step ([Seed_Lock, Seed_Unlock], rs\<lparr>locked := True\<rparr>) = None \<and>
   (\<forall>k. Seed_run k ([Seed_Lock], rs\<lparr>locked := True\<rparr>) = ([Seed_Lock], rs\<lparr>locked := True\<rparr>))"
  by (simp add: Seed_None Seed_run_inv Seed_run_blocked)

theorem Seed_never_returns_witness:
  "Seed \<lparr>source = (7::nat), locked = False\<rparr> 42 = None \<and>
   Seed_run 5 ([Seed_Lock], \<lparr>source = (7::nat), locked = False\<rparr>) =
     ([Seed_Lock, Seed_Unlock], \<lparr>source = 7, locked = True\<rparr>)"
  using Seed_never_returns [of "\<lparr>source = (7::nat), locked = False\<rparr>" 42]
  by (simp add: numeral_eq_Suc)

lemma rngMask_mask: "rngMask = mask 63"
  by (simp add: rngMask_def mask_eq_exp_minus_1)

lemma and_rngMask_nonneg: "0 \<le> sint (and (x::int64) rngMask)"
proof -
  have "\<not> bit (and x rngMask) 63"
    by (simp add: rngMask_mask bit_and_iff bit_mask_iff)
  then show ?thesis
    using bit_last_iff [of "and x rngMask"] by simp
qed

lemma rngSource_contract: "0 \<le> sint (fst (rngSource_Int63 rng))"
  by (simp add: rngSource_Int63_def split_beta Let_def and_rngMask_nonneg)

text \<open>
  Claim C8. When the \<open>rand.Source\<close> keeps its contract (its \<open>Int63\<close> is never negative),
  a number \<open>rs.Int63()\<close> returns is the one the source produced, \<open>0 \<le> n < 2^63\<close>, and the
  mutex is free again; and on a free mutex the call returns.
\<close>
theorem Int63_range:
  assumes "\<forall>s. 0 \<le> sint (fst (source_Int63 s))"
  shows "(Int63 source_Int63 rs = Some (n, rs') \<longrightarrow>
           0 \<le> sint n \<and> sint n < 2 ^ 63 \<and> n = fst (source_Int63 (source rs)) \<and> \<not> locked rs') \<and>
         (\<not> locked rs \<longrightarrow> (\<exists>n rs'. Int63 source_Int63 rs = Some (n, rs')))"
proof -
  have up: "sint n < 2 ^ 63" using sint_lt [of n] by simp
  show ?thesis using assms up
    by (auto simp: Int63_def bind_eq_Some_conv Unlock_def Lock_free split_beta Let_def dest!: Lock_Some)
qed

theorem Int63_range_witness:
  "Int63 rngSource_Int63
     \<lparr>source = \<lparr>tap = 0, feed = 334, vec = replicate 607 1\<rparr>, locked = False\<rparr> =
   Some (2, \<lparr>source = \<lparr>tap = 606, feed = 333, vec = (replicate 607 1)[333 := 2]\<rparr>,
             locked = False\<rparr>) \<and>
   0 \<le> sint (2 :: int64) \<and> sint (2 :: int64) < 2 ^ 63"
proof -
  have c: "\<forall>s. 0 \<le> sint (fst (rngSource_Int63 s))"
    by (simp add: rngSource_contract)
  have m: "and (2 :: int64) rngMask = 2"
    by (simp add: rngMask_mask mask_eq_iff)
  have e: "Int63 rngSource_Int63
     \<lparr>source = \<lparr>tap = 0, feed = 334, vec = replicate 607 1\<rparr>, locked = False\<rparr> =
   Some (2, \<lparr>source = \<lparr>tap = 606, feed = 333, vec = (replicate 607 1)[333 := 2]\<rparr>,
             locked = False\<rparr>)"
    by (simp add: Int63_def Lock_free Unlock_def rngSource_Int63_def rngSource_Uint64_def
        rngLen_def m Let_def)
  from Int63_range [OF c, of "\<lparr>source = \<lparr>tap = 0, feed = 334, vec = replicate 607 1\<rparr>, locked = False\<rparr>"
      2 "\<lparr>source = \<lparr>tap = 606, feed = 333, vec = (replicate 607 1)[333 := 2]\<rparr>, locked = False\<rparr>"] e
  show ?thesis by simp
qed

subsection \<open>Agent address and transport\<close>

text \<open>
  Claim C5. The URL of the agent is resolved with the precedence explicit option, then
  environment, then default: with the option \<open>WithAgentAddr\<close> the URL is made of the
  address of the option, whatever the environment; without it the host and the port of
  the environment each replace, on their own, the default host and the default port; with
  neither set the URL is the default one.
\<close>
theorem resolve_agentURL_precedence:
  "agentURL (resolve_agentURL defaultHostname defaultPort (Some (WithAgentAddr addr)) envHost envPort) =
     ''http://'' @ addr \<and>
   agentURL (resolve_agentURL defaultHostname defaultPort None envHost envPort) =
     ''http://'' @ (if envHost = [] then defaultHostname else envHost) @ '':'' @
     (if envPort = [] then defaultPort else envPort) \<and>
   agentURL (resolve_agentURL defaultHostname defaultPort None [] []) =
     ''http://'' @ defaultHostname @ '':'' @ defaultPort"
  by (simp add: resolve_agentURL_def resolveAgentAddr_def WithAgentAddr_def Getenv_def Let_def)

theorem resolve_agentURL_precedence_witness:
  "agentURL (resolve_agentURL ''localhost'' ''8126'' None '''' '''') = ''http://localhost:8126'' \<and>
   agentURL (resolve_agentURL ''localhost'' ''8126'' None ''ip.local'' '''') = ''http://ip.local:8126'' \<and>
   agentURL (resolve_agentURL ''localhost'' ''8126'' None '''' ''1234'') = ''http://localhost:1234'' \<and>
   agentURL (resolve_agentURL ''localhost'' ''8126'' None ''ip.local'' ''1234'') = ''http://ip.local:1234'' \<and>
   agentURL (resolve_agentURL ''localhost'' ''8126'' (Some (WithAgentAddr ''host:1243'')) '''' '''') =
     ''http://host:1243'' \<and>
   agentURL (resolve_agentURL ''localhost'' ''8126'' (Some (WithAgentAddr ''ip.other:9876'')) ''ip.local'' '''') =
     ''http://ip.other:9876'' \<and>
   agentURL (resolve_agentURL ''localhost'' ''8126'' (Some (WithAgentAddr ''ip.other:1234'')) '''' ''9876'') =
     ''http://ip.other:1234'' \<and>
   agentURL (resolve_agentURL ''localhost'' ''8126'' (Some (WithAgentAddr ''ip.other:8888'')) ''ip.local'' ''1234'') =
     ''http://ip.other:8888''"
  using resolve_agentURL_precedence [of "''localhost''" "''8126''" "''host:1243''" "''''" "''''"]
    resolve_agentURL_precedence [of "''localhost''" "''8126''" "''ip.other:9876''" "''ip.local''" "''''"]
    resolve_agentURL_precedence [of "''localhost''" "''8126''" "''ip.other:1234''" "''''" "''9876''"]
    resolve_agentURL_precedence [of "''localhost''" "''8126''" "''ip.other:8888''" "''ip.local''" "''1234''"]
    resolve_agentURL_precedence [of "''localhost''" "''8126''" "''ip.other:8888''" "''''" "''1234''"]
  by simp

text \<open>
  Claim C3. \<open>send\<close> issues one request and no more. It returns the body of the response
  exactly when the agent answers with a 2xx status; an error of the transport level is
  returned as the error, and any other status gives the error whose message is the first
  1000 bytes of the body of the response followed by the text of the status.
\<close>
theorem send_success_iff_2xx:
  "(let req = \<lparr>req_headers = [(traceCountHeader, Itoa (int (itemCount p)))], req_body = bytes p\<rparr>;
        result = fst (send client_Do StatusText p)
    in snd (send client_Do StatusText p) = [req] \<and>
       (\<forall>body. result = Inr body \<longleftrightarrow>
          (\<exists>resp. client_Do req = Inr resp \<and> 200 \<le> StatusCode resp \<and> StatusCode resp < 300 \<and>
                  body = resp_body resp)) \<and>
       (\<forall>err. client_Do req = Inl err \<longrightarrow> result = Inl err) \<and>
       (\<forall>resp. client_Do req = Inr resp \<and> \<not> (200 \<le> StatusCode resp \<and> StatusCode resp < 300) \<longrightarrow>
          result = Inl (take 1000 (resp_body resp) @ '' (Status: '' @
                        StatusText (StatusCode resp) @ '')'')))"
  by (auto simp: send_def Let_def split: sum.splits)

theorem send_success_iff_2xx_witness:
  "fst (send (\<lambda>req. Inr \<lparr>StatusCode = 200, resp_body = ''Hello world!''\<rparr>)
         (\<lambda>code. ''Bad Request'') \<lparr>itemCount = 0, bytes = []\<rparr>) = Inr ''Hello world!'' \<and>
   fst (send (\<lambda>req. Inr \<lparr>StatusCode = 400, resp_body = replicate 1002 CHR ''X''\<rparr>)
         (\<lambda>code. ''Bad Request'') \<lparr>itemCount = 0, bytes = []\<rparr>) =
     Inl (replicate 1000 CHR ''X'' @ '' (Status: Bad Request)'') \<and>
   fst (send (\<lambda>req. Inl ''connection refused'')
         (\<lambda>code. ''Bad Request'') \<lparr>itemCount = 0, bytes = []\<rparr>) = Inl ''connection refused''"
  using send_success_iff_2xx [of "\<lparr>itemCount = 0, bytes = []\<rparr>"
      "\<lambda>req. Inr \<lparr>StatusCode = 200, resp_body = ''Hello world!''\<rparr>" "\<lambda>code. ''Bad Request''"]
    send_success_iff_2xx [of "\<lparr>itemCount = 0, bytes = []\<rparr>"
      "\<lambda>req. Inr \<lparr>StatusCode = 400, resp_body = replicate 1002 CHR ''X''\<rparr>" "\<lambda>code. ''Bad Request''"]
    send_success_iff_2xx [of "\<lparr>itemCount = 0, bytes = []\<rparr>"
      "\<lambda>req. Inl ''connection refused''" "\<lambda>code. ''Bad Request''"]
  by (simp add: Let_def)

text \<open>
  Claim C4. For the payload encoded from a batch of traces that is not empty (and whose
  length is one a slice can have), \<open>send\<close> issues one request; its header
  \<open>X-Datadog-Trace-Count\<close> parses as an integer, which is the number of the traces and
  is not zero, and its body is the bytes of the payload.
\<close>
theorem send_trace_count_header:
  assumes "traces \<noteq> []" and "length traces < 2 ^ 63"
  shows "\<exists>req v. snd (send client_Do StatusText (encode enc traces)) = [req] \<and>
           map_of (req_headers req) traceCountHeader = Some v \<and>
           Atoi v = Some (int (length traces)) \<and> int (length traces) \<noteq> 0 \<and>
           req_body req = enc traces"
  using assms by (simp add: send_def encode_def Let_def Atoi_Itoa)

theorem send_trace_count_header_witness:
  "snd (send (\<lambda>req. Inr \<lparr>StatusCode = 200, resp_body = []\<rparr>) (\<lambda>code. ''OK'')
         (encode concat (replicate 10 ''s''))) =
     [\<lparr>req_headers = [(''X-Datadog-Trace-Count'', ''10'')], req_body = ''ssssssssss''\<rparr>] \<and>
   Atoi ''10'' = Some 10"
proof -
  have n: "replicate 10 ''s'' \<noteq> []" by simp
  have l: "length (replicate 10 ''s'') < 2 ^ 63" by simp
  have i: "Itoa 10 = ''10''"
    by (simp add: Itoa_def digits.simps [of 10] digits.simps [of "Suc 0"] digit_char_def)
  from send_trace_count_header [OF n l, of "\<lambda>req. Inr \<lparr>StatusCode = 200, resp_body = []\<rparr>"
      "\<lambda>code. ''OK''" concat]
  show ?thesis
    by (auto simp: send_def encode_def Let_def i traceCountHeader_def numeral_eq_Suc)
qed

subsection \<open>The wrapped partition consumer\<close>

lemma forwarded_append: "forwarded (xs @ ys) = forwarded xs @ forwarded ys"
  by (induction xs rule: forwarded.induct) simp_all

lemma started_spans_append: "started_spans (xs @ ys) = started_spans xs @ started_spans ys"
  by (induction xs rule: started_spans.induct) simp_all

lemma finished_append: "finished (xs @ ys) = finished xs @ finished ys"
  by (induction xs rule: finished.induct) simp_all

lemma finished_finish_prev: "finished (finish_prev prev) = (case prev of None \<Rightarrow> [] | Some p \<Rightarrow> [p])"
  by (simp add: finish_prev_def split: option.splits)

lemma forwarded_finish_prev: "forwarded (finish_prev prev) = []"
  by (simp add: finish_prev_def split: option.splits)

lemma started_finish_prev: "started_spans (finish_prev prev) = []"
  by (simp add: finish_prev_def split: option.splits)

lemma consume_loop_forwarded_prefix:
  "forwarded (consume_loop receives msgs prev k tr) = forwarded tr @ take receives msgs"
proof (induction msgs arbitrary: receives prev k tr)
  case Nil
  show ?case by (simp add: forwarded_append forwarded_finish_prev)
next
  case (Cons m ms)
  show ?case
    by (cases receives) (simp_all add: Cons.IH forwarded_append forwarded_finish_prev Let_def)
qed

lemma consume_loop_started:
  "length msgs \<le> receives \<Longrightarrow>
   started_spans (consume_loop receives msgs prev k tr) =
     started_spans tr @ zip [k..<k + length msgs] msgs"
proof (induction msgs arbitrary: receives prev k tr)
  case Nil
  show ?case by (simp add: started_spans_append started_finish_prev)
next
  case (Cons m ms)
  from Cons.prems obtain r where r: "receives = Suc r" "length ms \<le> r"
    by (cases receives) auto
  have u: "[k..<k + length (m # ms)] = k # [k + 1..<k + 1 + length ms]"
    by (simp add: upt_conv_Cons del: upt_Suc)
  show ?case
    unfolding u r(1)
    by (simp add: Cons.IH [OF r(2)] started_spans_append started_finish_prev Let_def)
qed

lemma consume_loop_finished:
  "length msgs \<le> receives \<Longrightarrow>
   finished (consume_loop receives msgs prev k tr) =
     finished tr @ (case prev of None \<Rightarrow> [] | Some p \<Rightarrow> [p]) @ [k..<k + length msgs]"
proof (induction msgs arbitrary: receives prev k tr)
  case Nil
  show ?case by (simp add: finished_append finished_finish_prev)
next
  case (Cons m ms)
  from Cons.prems obtain r where r: "receives = Suc r" "length ms \<le> r"
    by (cases receives) auto
  have u: "[k..<k + length (m # ms)] = k # [k + 1..<k + 1 + length ms]"
    by (simp add: upt_conv_Cons del: upt_Suc)
  show ?case
    unfolding u r(1)
    by (simp add: Cons.IH [OF r(2)] finished_append finished_finish_prev Let_def)
qed

lemma consume_loop_closed_form:
  "length msgs \<le> receives \<Longrightarrow>
   consume_loop receives msgs prev k tr =
     tr @
     concat (map (\<lambda>i. [StartSpan (k + i) (msgs ! i), Inject (k + i) (msgs ! i), Forward (msgs ! i)] @
                       (if i = 0 then finish_prev prev else [Finish (k + i - 1)]))
                 [0..<length msgs]) @
     (if msgs = [] then finish_prev prev else [Finish (k + length msgs - 1)]) @
     [Close_messages]"
proof (induction msgs arbitrary: receives prev k tr)
  case Nil
  show ?case by simp
next
  case (Cons m ms)
  from Cons.prems obtain r where r: "receives = Suc r" "length ms \<le> r"
    by (cases receives) auto
  have u: "[0..<length (m # ms)] = 0 # map Suc [0..<length ms]"
    by (simp add: upt_conv_Cons map_Suc_upt del: upt_Suc)
  have f: "(if ms = [] then finish_prev (Some k) else [Finish (k + 1 + length ms - 1)]) =
           [Finish (k + length (m # ms) - 1)]"
    by (simp add: finish_prev_def)
  have g: "map (\<lambda>i. [StartSpan (k + 1 + i) (ms ! i), Inject (k + 1 + i) (ms ! i), Forward (ms ! i)] @
                    (if i = 0 then finish_prev (Some k) else [Finish (k + 1 + i - 1)]))
               [0..<length ms] =
           map ((\<lambda>i. [StartSpan (k + i) ((m # ms) ! i), Inject (k + i) ((m # ms) ! i),
                      Forward ((m # ms) ! i)] @
                     (if i = 0 then finish_prev prev else [Finish (k + i - 1)])) \<circ> Suc)
               [0..<length ms]"
    by (rule map_cong) (auto simp: finish_prev_def)
  show ?case
    unfolding u r(1)
    by (simp only: consume_loop.simps Let_def nat.case Cons.IH [OF r(2)] f g list.map
          map_map [symmetric])
       (simp add: finish_prev_def)
qed

text \<open>
  Claim C6, as amended. When the reader of the wrapped consumer receives every message
  sent to it (as many receives as the underlying channel delivers messages, or more),
  then for every finite sequence of messages on the underlying channel the goroutine
  forwards that sequence, in that order and each message once, starts one span for each
  message, finishes each span once, the span of a message after it forwarded the next
  message and the last span after the loop, and closes its channel last and once.
\<close>
theorem WrapPartitionConsumer_forwards:
  assumes "length msgs \<le> receives"
  shows
  "forwarded (WrapPartitionConsumer receives msgs) = msgs \<and>
   started_spans (WrapPartitionConsumer receives msgs) = zip [0..<length msgs] msgs \<and>
   finished (WrapPartitionConsumer receives msgs) = [0..<length msgs] \<and>
   WrapPartitionConsumer receives msgs =
     concat (map (\<lambda>i. [StartSpan i (msgs ! i), Inject i (msgs ! i), Forward (msgs ! i)] @
                       (if i = 0 then [] else [Finish (i - 1)]))
                 [0..<length msgs]) @
     (if msgs = [] then [] else [Finish (length msgs - 1)]) @
     [Close_messages] \<and>
   (\<exists>tr. WrapPartitionConsumer receives msgs = tr @ [Close_messages] \<and> Close_messages \<notin> set tr)"
proof -
  have c: "WrapPartitionConsumer receives msgs =
     concat (map (\<lambda>i. [StartSpan i (msgs ! i), Inject i (msgs ! i), Forward (msgs ! i)] @
                       (if i = 0 then [] else [Finish (i - 1)]))
                 [0..<length msgs]) @
     (if msgs = [] then [] else [Finish (length msgs - 1)]) @
     [Close_messages]"
    using consume_loop_closed_form [OF assms, of None 0 "[]"]
    by (simp add: WrapPartitionConsumer_def finish_prev_def cong: if_cong)
  have e: "\<exists>tr. WrapPartitionConsumer receives msgs = tr @ [Close_messages] \<and>
             Close_messages \<notin> set tr"
  proof (intro exI conjI)
    show "WrapPartitionConsumer receives msgs =
      (concat (map (\<lambda>i. [StartSpan i (msgs ! i), Inject i (msgs ! i), Forward (msgs ! i)] @
                       (if i = 0 then [] else [Finish (i - 1)]))
                 [0..<length msgs]) @
       (if msgs = [] then [] else [Finish (length msgs - 1)])) @ [Close_messages]"
      using c by simp
    show "Close_messages \<notin> set (concat (map (\<lambda>i. [StartSpan i (msgs ! i), Inject i (msgs ! i), Forward (msgs ! i)] @
                       (if i = 0 then [] else [Finish (i - 1)]))
                 [0..<length msgs]) @
       (if msgs = [] then [] else [Finish (length msgs - 1)]))"
      by auto
  qed
  have f: "forwarded (WrapPartitionConsumer receives msgs) = msgs"
    using assms by (simp add: WrapPartitionConsumer_def consume_loop_forwarded_prefix)
  have s: "started_spans (WrapPartitionConsumer receives msgs) = zip [0..<length msgs] msgs"
    using assms by (simp add: WrapPartitionConsumer_def consume_loop_started)
  have d: "finished (WrapPartitionConsumer receives msgs) = [0..<length msgs]"
    using assms by (simp add: WrapPartitionConsumer_def consume_loop_finished)
  from f s d c e show ?thesis by (intro conjI)
qed

theorem WrapPartitionConsumer_forwards_witness:
  "length [''a'', ''b'', ''c''] \<le> (3::nat) \<and>
   WrapPartitionConsumer 3 [''a'', ''b'', ''c''] =
     [StartSpan 0 ''a'', Inject 0 ''a'', Forward ''a'',
      StartSpan 1 ''b'', Inject 1 ''b'', Forward ''b'', Finish 0,
      StartSpan 2 ''c'', Inject 2 ''c'', Forward ''c'', Finish 1,
      Finish 2, Close_messages] \<and>
   forwarded (WrapPartitionConsumer 3 [''a'', ''b'', ''c'']) = [''a'', ''b'', ''c''] \<and>
   finished (WrapPartitionConsumer 3 [''a'', ''b'', ''c'']) = [0, 1, 2]"
proof -
  have h: "length [''a'', ''b'', ''c''] \<le> (3::nat)" by simp
  from WrapPartitionConsumer_forwards [OF h] h show ?thesis
    by (simp add: upt_rec numeral_eq_Suc)
qed

text \<open>
  Claim C6 as it is written, for every run, does not hold. With a reader that receives
  nothing, the message \<open>a\<close> of the underlying channel is not forwarded, its span is
  started and not finished, and the channel is not closed. With a reader that receives
  one message of \<open>a, b\<close>, the message \<open>b\<close> is not forwarded, no span is finished and the
  channel is not closed.
\<close>
theorem WrapPartitionConsumer_reader_stops:
  "WrapPartitionConsumer 0 [''a''] = [StartSpan 0 ''a'', Inject 0 ''a''] \<and>
   forwarded (WrapPartitionConsumer 0 [''a'']) \<noteq> [''a''] \<and>
   started_spans (WrapPartitionConsumer 0 [''a'']) = [(0, ''a'')] \<and>
   finished (WrapPartitionConsumer 0 [''a'']) = [] \<and>
   Close_messages \<notin> set (WrapPartitionConsumer 0 [''a'']) \<and>
   WrapPartitionConsumer 1 [''a'', ''b''] =
     [StartSpan 0 ''a'', Inject 0 ''a'', Forward ''a'', StartSpan 1 ''b'', Inject 1 ''b''] \<and>
   forwarded (WrapPartitionConsumer 1 [''a'', ''b'']) \<noteq> [''a'', ''b''] \<and>
   finished (WrapPartitionConsumer 1 [''a'', ''b'']) = [] \<and>
   Close_messages \<notin> set (WrapPartitionConsumer 1 [''a'', ''b''])"
  by (simp add: WrapPartitionConsumer_def finish_prev_def Let_def)

subsection \<open>The wrapped asynchronous producer\<close>


















end
